theory Spec2Isabelle
  imports Main
begin

section \<open>Python strings\<close>

text \<open>
  The URL and the labels are Python \<^verbatim>\<open>str\<close> values. They are modelled as \<^typ>\<open>string\<close>,
  one \<^typ>\<open>char\<close> per code point, which covers the code points 0 to 255. On that range
  \<^verbatim>\<open>str.isupper\<close>, \<^verbatim>\<open>str.isdigit\<close>, \<^verbatim>\<open>str.lower\<close> and the regular expression class
  \<^verbatim>\<open>\d\<close> behave as written below: the upper-case letters are A to Z and the code points
  192 to 222 without 215 (the multiplication sign); \<^verbatim>\<open>isdigit\<close> also accepts the
  superscripts 178, 179 and 185, which \<^verbatim>\<open>\d\<close> does not; \<^verbatim>\<open>lower\<close> adds 32 to an upper-case
  letter and keeps the length of the string.
\<close>

definition isupper :: "char \<Rightarrow> bool" where
  "isupper c =
     (let n = (of_char c :: nat)
      in (65 \<le> n \<and> n \<le> 90) \<or> (192 \<le> n \<and> n \<le> 222 \<and> n \<noteq> 215))"

definition isdigit :: "char \<Rightarrow> bool" where
  "isdigit c =
     (let n = (of_char c :: nat)
      in (48 \<le> n \<and> n \<le> 57) \<or> n = 178 \<or> n = 179 \<or> n = 185)"

definition lower_char :: "char \<Rightarrow> char" where
  "lower_char c = (if isupper c then char_of ((of_char c :: nat) + 32) else c)"

text \<open>\<^verbatim>\<open>s.lower()\<close>\<close>

definition lower :: "string \<Rightarrow> string" where
  "lower s = map lower_char s"

text \<open>\<^verbatim>\<open>s.count(c)\<close> for a one-character string \<^verbatim>\<open>c\<close>.\<close>

definition count :: "string \<Rightarrow> char \<Rightarrow> int" where
  "count s c = int (length (filter (\<lambda>x. x = c) s))"

text \<open>
  \<^verbatim>\<open>s.split(sep)\<close> for a one-character separator: the scan keeps the piece collected so
  far in \<open>cur\<close>, closes it at every separator, and closes the last piece at the end of the
  string.
\<close>

fun split_from :: "string \<Rightarrow> string \<Rightarrow> char \<Rightarrow> string list" where
  "split_from cur [] sep = [cur]"
| "split_from cur (c # cs) sep =
     (if c = sep then cur # split_from [] cs sep else split_from (cur @ [c]) cs sep)"

definition split :: "string \<Rightarrow> char \<Rightarrow> string list" where
  "split s sep = split_from [] s sep"

text \<open>\<^verbatim>\<open>s.startswith(sub)\<close> and the substring test \<^verbatim>\<open>sub in s\<close>.\<close>

fun startswith :: "string \<Rightarrow> string \<Rightarrow> bool" where
  "startswith s [] = True"
| "startswith [] (p # ps) = False"
| "startswith (c # cs) (p # ps) = (c = p \<and> startswith cs ps)"

fun str_in :: "string \<Rightarrow> string \<Rightarrow> bool" where
  "str_in sub [] = (sub = [])"
| "str_in sub (c # cs) = (startswith (c # cs) sub \<or> str_in sub cs)"

section \<open>Exceptions and indexing\<close>

text \<open>
  \<open>IndexError msg\<close> is what a subscript raises out of range; \<open>Raised msg\<close> is any
  exception of a collaborator or of the file system. Both carry the text \<^verbatim>\<open>str(e)\<close>
  gives. \<open>py_index\<close> is \<^verbatim>\<open>xs[i]\<close> on a Python list; \<open>array_first\<close> is \<^verbatim>\<open>a[0]\<close> on the
  one-dimensional array a collaborator returns, which is out of range only when the
  array is empty.
\<close>

datatype exn = IndexError string | Raised string

fun str_of_exn :: "exn \<Rightarrow> string" where
  "str_of_exn (IndexError msg) = msg"
| "str_of_exn (Raised msg) = msg"

definition py_index :: "'a list \<Rightarrow> nat \<Rightarrow> exn + 'a" where
  "py_index xs i =
     (if i < length xs then Inr (xs ! i) else Inl (IndexError ''list index out of range''))"

definition array_first :: "'a list \<Rightarrow> exn + 'a" where
  "array_first xs =
     (case xs of
        [] \<Rightarrow> Inl (IndexError ''index 0 is out of bounds for axis 0 with size 0'')
      | x # rest \<Rightarrow> Inr x)"

section \<open>Regular expressions\<close>

text \<open>
  The two patterns of the program use the digit class, literal characters, \<^verbatim>\<open>+\<close> and
  concatenation. \<open>rests r s\<close> lists, in the order a backtracking matcher tries them
  (\<^verbatim>\<open>+\<close> is greedy), the remainders of \<open>s\<close> after each way of matching \<open>r\<close> at the start
  of \<open>s\<close>. Every pattern of this type consumes at least one character, so \<open>length s\<close>
  rounds bound the repetitions of \<^verbatim>\<open>+\<close> on \<open>s\<close>.
\<close>

datatype regex = Digit | Lit char | Plus regex | Seq regex regex

definition re_digit :: "char \<Rightarrow> bool" where
  "re_digit c = (let n = (of_char c :: nat) in 48 \<le> n \<and> n \<le> 57)"

primrec repeat :: "(string \<Rightarrow> string list) \<Rightarrow> nat \<Rightarrow> string \<Rightarrow> string list" where
  "repeat f 0 s = []"
| "repeat f (Suc n) s = concat (map (\<lambda>t. repeat f n t @ [t]) (f s))"

primrec rests :: "regex \<Rightarrow> string \<Rightarrow> string list" where
  "rests Digit s = (case s of [] \<Rightarrow> [] | c # cs \<Rightarrow> if re_digit c then [cs] else [])"
| "rests (Lit a) s = (case s of [] \<Rightarrow> [] | c # cs \<Rightarrow> if c = a then [cs] else [])"
| "rests (Plus r) s = repeat (rests r) (length s) s"
| "rests (Seq r1 r2) s = concat (map (rests r2) (rests r1 s))"

text \<open>
  \<^verbatim>\<open>re.match(p, s)\<close> looks for a match at position 0 only; \<^verbatim>\<open>re.search(p, s)\<close> tries every
  position from left to right. Both are used for their truth value.
\<close>

definition re_match :: "regex \<Rightarrow> string \<Rightarrow> bool" where
  "re_match r s = (rests r s \<noteq> [])"

fun re_search :: "regex \<Rightarrow> string \<Rightarrow> bool" where
  "re_search r [] = re_match r []"
| "re_search r (c # cs) = (re_match r (c # cs) \<or> re_search r cs)"

text \<open>\<^verbatim>\<open>r'\d+\.\d+\.\d+\.\d+'\<close> and \<^verbatim>\<open>r":\d+"\<close>\<close>

definition ip_pattern :: regex where
  "ip_pattern =
     Seq (Plus Digit) (Seq (Lit CHR ''.'') (Seq (Plus Digit) (Seq (Lit CHR ''.'')
       (Seq (Plus Digit) (Seq (Lit CHR ''.'') (Plus Digit))))))"

definition port_pattern :: regex where
  "port_pattern = Seq (Lit CHR '':'') (Plus Digit)"

section \<open>The feature extractor\<close>

definition suspicious_words :: "string list" where
  "suspicious_words =
     [''login'', ''verify'', ''secure'', ''account'', ''update'', ''confirm'', ''bank'',
      ''reset'', ''free'', ''click'', ''offer'', ''win'', ''paypal'', ''ebay'']"

text \<open>
  The two subscripts of the function, \<^verbatim>\<open>url.split('/')[2]\<close> and \<^verbatim>\<open>url.split('?')[1]\<close>, are
  its only operations that can raise. Each stands under the condition the source writes
  in front of it: \<^verbatim>\<open>len(url.split('/')) > 2\<close> and \<^verbatim>\<open>'?' in url\<close>.
\<close>

definition domain_length :: "string \<Rightarrow> exn + int" where
  "domain_length url =
     (if int (length (split url CHR ''/'')) > 2
      then (case py_index (split url CHR ''/'') 2 of
              Inl e \<Rightarrow> Inl e
            | Inr seg \<Rightarrow> Inr (int (length seg)))
      else Inr 0)"

definition query_length :: "string \<Rightarrow> exn + int" where
  "query_length url =
     (if str_in ''?'' url
      then (case py_index (split url CHR ''?'') 1 of
              Inl e \<Rightarrow> Inl e
            | Inr q \<Rightarrow> Inr (int (length q)))
      else Inr 0)"

text \<open>
  \<^verbatim>\<open>extract_features_from_url\<close> appends fourteen integers to a fresh list, in this order;
  the first subscript that raises ends the call.
\<close>

definition extract_features_from_url :: "string \<Rightarrow> exn + int list" where
  "extract_features_from_url url =
     (case domain_length url of
        Inl e \<Rightarrow> Inl e
      | Inr domain_len \<Rightarrow>
     (case query_length url of
        Inl e \<Rightarrow> Inl e
      | Inr query_len \<Rightarrow>
          Inr [int (length url),
               count url CHR ''.'',
               sum_list (map (count url) ''@?=&-_''),
               (if re_match ip_pattern url then 1 else 0),
               (if str_in ''https'' (lower url) then 1 else 0),
               int (length (split url CHR ''/'')),
               (if list_ex (\<lambda>tag. str_in tag (lower url)) [''base64'', ''javascript:'', ''data:'']
                then 1 else 0),
               int (length (filter isdigit url)),
               int (length (filter isupper url)),
               domain_len,
               (if int (length (split url CHR ''.'')) > 2
                then int (length (split url CHR ''.'')) - 2 else 0),
               (if re_search port_pattern url then 1 else 0),
               query_len,
               (if list_ex (\<lambda>word. str_in word (lower url)) suspicious_words
                then 1 else 0)]))"

section \<open>The classification pipeline\<close>

text \<open>
  The collaborators are loaded once from files and the program only calls them:
  \<^verbatim>\<open>scaler.transform\<close>, \<^verbatim>\<open>model.predict\<close> and \<^verbatim>\<open>label_encoder.inverse_transform\<close>, each of
  which may raise. \<open>now_isoformat\<close> is \<^verbatim>\<open>datetime.now().isoformat()\<close> at the time of the
  call. The append to \<^verbatim>\<open>classified_history.csv\<close> can fail at two places inside the \<^verbatim>\<open>with\<close>
  statement: \<open>open_history\<close> says whether opening the file for appending raises
  (\<open>Some e\<close>) or succeeds (\<open>None\<close>), and \<open>write_row\<close> says whether, once the file is open,
  writing the given row and closing the file raises. The types of the scaled rows and
  of the encoded classes are left open.
\<close>

record ('s, 'k) env =
  scaler_transform :: "int list list \<Rightarrow> exn + 's"
  model_predict :: "'s \<Rightarrow> exn + 'k list"
  label_inverse_transform :: "'k list \<Rightarrow> exn + string list"
  now_isoformat :: string
  open_history :: "exn option"
  write_row :: "string \<times> string \<times> string \<Rightarrow> exn option"

text \<open>
  What a request can change: the rows of the history file (timestamp, URL, label), and
  the calls made so far to the extractor and to the collaborators, in order. A row is in
  the history once its write has returned; a write that raises records no row.
\<close>

datatype call = Extract | Transform | Predict | InverseTransform

record world =
  history :: "(string \<times> string \<times> string) list"
  calls :: "call list"

text \<open>
  The answer of the endpoint: \<^verbatim>\<open>{'prediction': label}\<close> with status 200, or
  \<^verbatim>\<open>{'error': message}\<close> with the status given.
\<close>

datatype response = Prediction string | Error string nat

definition override_tags :: "string list" where
  "override_tags = [''vulnweb'', ''acunetix'', ''testphp'', ''demo'']"

definition dangerous_labels :: "string list" where
  "dangerous_labels = [''phishing'', ''malicious'', ''unsafe'']"

definition called :: "call \<Rightarrow> world \<Rightarrow> world" where
  "called c w = w\<lparr>calls := calls w @ [c]\<rparr>"

text \<open>
  The body of the \<^verbatim>\<open>try\<close> block of \<^verbatim>\<open>predict\<close>: \<open>Inl e\<close> is the exception that leaves it,
  \<open>Inr label\<close> the label it reaches the \<^verbatim>\<open>return\<close> with.
\<close>

definition predict_try :: "('s, 'k) env \<Rightarrow> string \<Rightarrow> world \<Rightarrow> (exn + string) \<times> world" where
  "predict_try env url w =
     (let w1 = called Extract w in
      case extract_features_from_url url of
        Inl e \<Rightarrow> (Inl e, w1)
      | Inr features \<Rightarrow>
     (let w2 = called Transform w1 in
      case scaler_transform env [features] of
        Inl e \<Rightarrow> (Inl e, w2)
      | Inr scaled \<Rightarrow>
     (let w3 = called Predict w2 in
      case model_predict env scaled of
        Inl e \<Rightarrow> (Inl e, w3)
      | Inr encoded \<Rightarrow>
     (case array_first encoded of
        Inl e \<Rightarrow> (Inl e, w3)
      | Inr prediction_encoded \<Rightarrow>
     (let w4 = called InverseTransform w3 in
      case label_inverse_transform env [prediction_encoded] of
        Inl e \<Rightarrow> (Inl e, w4)
      | Inr labels \<Rightarrow>
     (case array_first labels of
        Inl e \<Rightarrow> (Inl e, w4)
      | Inr decoded \<Rightarrow>
     (let prediction_label =
            (if list_ex (\<lambda>tag. str_in tag (lower url)) override_tags
             then ''phishing'' else decoded)
      in if lower prediction_label \<in> set dangerous_labels
         then (case open_history env of
                 Some e \<Rightarrow> (Inl e, w4)
               | None \<Rightarrow>
                  (case write_row env (now_isoformat env, url, prediction_label) of
                     Some e \<Rightarrow> (Inl e, w4)
                   | None \<Rightarrow>
                       (Inr prediction_label,
                        w4\<lparr>history :=
                             history w4 @ [(now_isoformat env, url, prediction_label)]\<rparr>)))
         else (Inr prediction_label, w4))))))))"

text \<open>
  \<^verbatim>\<open>predict\<close>: the argument is the value of \<^verbatim>\<open>data.get('url')\<close> for a body that is a JSON
  object, \<open>None\<close> when the key is absent and a string otherwise; \<^verbatim>\<open>not url\<close> holds for
  \<open>None\<close> and for the empty string.
\<close>

definition predict :: "('s, 'k) env \<Rightarrow> string option \<Rightarrow> world \<Rightarrow> response \<times> world" where
  "predict env url_field w =
     (case url_field of
        None \<Rightarrow> (Error ''No URL provided'' 400, w)
      | Some url \<Rightarrow>
          if url = [] then (Error ''No URL provided'' 400, w)
          else (case predict_try env url w of
                  (Inl e, w') \<Rightarrow> (Error (str_of_exn e) 500, w')
                | (Inr label, w') \<Rightarrow> (Prediction label, w')))"

section \<open>Example environments\<close>

text \<open>
  Concrete collaborators for the examples below: a scaler that returns the rows
  unchanged, a model that always answers class 0, and a decoder that maps it to a fixed
  label. In \<open>benign_env\<close> the label is \<^verbatim>\<open>benign\<close> and the history file can be opened and
  written; in \<open>readonly_env\<close> the label is \<^verbatim>\<open>phishing\<close> and opening the history file
  raises.
\<close>

definition benign_env :: "(int list list, nat) env" where
  "benign_env =
     \<lparr>scaler_transform = (\<lambda>rows. Inr rows),
      model_predict = (\<lambda>scaled. Inr [0]),
      label_inverse_transform = (\<lambda>encoded. Inr [''benign'']),
      now_isoformat = ''2024-05-01T12:00:00.000000'',
      open_history = None,
      write_row = (\<lambda>row. None)\<rparr>"

definition readonly_env :: "(int list list, nat) env" where
  "readonly_env =
     \<lparr>scaler_transform = (\<lambda>rows. Inr rows),
      model_predict = (\<lambda>scaled. Inr [0]),
      label_inverse_transform = (\<lambda>encoded. Inr [''phishing'']),
      now_isoformat = ''2024-05-01T12:00:00.000000'',
      open_history = Some (Raised ''Permission denied''),
      write_row = (\<lambda>row. None)\<rparr>"

definition empty_world :: world where
  "empty_world = \<lparr>history = [], calls = []\<rparr>"

section \<open>Spec-side notions\<close>

text \<open>
  The words of the specification that the claims compare the code with: the substring
  after the first occurrence of a character, a run of one or more decimal digits, and a
  string that begins with four such runs separated by dots.
\<close>

definition after_first :: "char \<Rightarrow> string \<Rightarrow> string" where
  "after_first c s = drop 1 (dropWhile (\<lambda>x. x \<noteq> c) s)"

definition digits :: "string \<Rightarrow> bool" where
  "digits d = (d \<noteq> [] \<and> list_all re_digit d)"

definition begins_with_dotted_quad :: "string \<Rightarrow> bool" where
  "begins_with_dotted_quad s =
     (\<exists>a b c d rest. digits a \<and> digits b \<and> digits c \<and> digits d \<and>
        s = a @ ''.'' @ b @ ''.'' @ c @ ''.'' @ d @ rest)"

section \<open>Splitting and the two subscripts\<close>

lemma split_from_length:
  "length (split_from cur s sep) = Suc (length (filter (\<lambda>x. x = sep) s))"
  by (induction s arbitrary: cur) auto

lemma split_length: "length (split s sep) = Suc (length (filter (\<lambda>x. x = sep) s))"
  by (simp add: split_def split_from_length)

text \<open>The test \<^verbatim>\<open>sub in s\<close> holds exactly when \<open>sub\<close> occurs somewhere in \<open>s\<close>.\<close>

lemma startswith_iff: "startswith s sub \<longleftrightarrow> (\<exists>b. s = sub @ b)"
  by (induction s sub rule: startswith.induct) auto

lemma str_in_iff: "str_in sub s \<longleftrightarrow> (\<exists>a b. s = a @ sub @ b)"
proof (induction s)
  case Nil
  then show ?case by auto
next
  case (Cons c cs)
  have "(\<exists>a b. c # cs = a @ sub @ b) \<longleftrightarrow>
        (\<exists>b. c # cs = sub @ b) \<or> (\<exists>a b. cs = a @ sub @ b)"
  proof
    assume "\<exists>a b. c # cs = a @ sub @ b"
    then obtain a b where ab: "c # cs = a @ sub @ b" by blast
    show "(\<exists>b. c # cs = sub @ b) \<or> (\<exists>a b. cs = a @ sub @ b)"
    proof (cases a)
      case Nil
      then show ?thesis using ab by auto
    next
      case (Cons x a')
      then have "cs = a' @ sub @ b" using ab by simp
      then show ?thesis by blast
    qed
  next
    assume "(\<exists>b. c # cs = sub @ b) \<or> (\<exists>a b. cs = a @ sub @ b)"
    then show "\<exists>a b. c # cs = a @ sub @ b"
    proof
      assume "\<exists>b. c # cs = sub @ b"
      then obtain b where "c # cs = [] @ sub @ b" by auto
      then show ?thesis by blast
    next
      assume "\<exists>a b. cs = a @ sub @ b"
      then obtain a b where "c # cs = (c # a) @ sub @ b" by auto
      then show ?thesis by blast
    qed
  qed
  then show ?case
    by (simp only: str_in.simps startswith_iff Cons.IH)
qed

lemma str_in_single: "str_in [c] s \<longleftrightarrow> c \<in> set s"
  by (induction s) auto

lemma split_second: "c \<in> set s \<Longrightarrow> 1 < length (split s c)"
  by (simp add: split_length filter_empty_conv)

lemma domain_length_ok:
  "domain_length url =
     Inr (if 2 < length (split url CHR ''/'') then int (length (split url CHR ''/'' ! 2)) else 0)"
  by (simp add: domain_length_def py_index_def)

lemma query_length_ok:
  "query_length url =
     Inr (if CHR ''?'' \<in> set url then int (length (split url CHR ''?'' ! 1)) else 0)"
  using split_second [of "CHR ''?''" url]
  by (simp add: query_length_def py_index_def str_in_single)

lemma extract_ok: "\<exists>v. extract_features_from_url url = Inr v \<and> length v = 14"
  by (simp add: extract_features_from_url_def domain_length_ok query_length_ok)

lemma extract_nth3:
  "extract_features_from_url url = Inr v \<Longrightarrow> v ! 3 = (if re_match ip_pattern url then 1 else 0)"
  by (auto simp add: extract_features_from_url_def domain_length_ok query_length_ok)

lemma extract_nth5:
  "extract_features_from_url url = Inr v \<Longrightarrow> v ! 5 = int (length (split url CHR ''/''))"
  by (auto simp add: extract_features_from_url_def domain_length_ok query_length_ok)

lemma extract_nth12:
  "extract_features_from_url url = Inr v \<Longrightarrow>
   v ! 12 = (if CHR ''?'' \<in> set url then int (length (split url CHR ''?'' ! 1)) else 0)"
  by (auto simp add: extract_features_from_url_def domain_length_ok query_length_ok)

text \<open>
  What the second piece of a split is: the text between the first separator and the
  next one (or the end of the string).
\<close>

lemma split_from_first: "split_from cur s c ! 0 = cur @ takeWhile (\<lambda>x. x \<noteq> c) s"
  by (induction s arbitrary: cur) auto

lemma split_from_piece1:
  "c \<in> set s \<Longrightarrow> split_from cur s c ! 1 = takeWhile (\<lambda>x. x \<noteq> c) (after_first c s)"
proof (induction s arbitrary: cur)
  case Nil
  then show ?case by simp
next
  case (Cons x xs)
  show ?case
  proof (cases "x = c")
    case True
    have "split_from cur (x # xs) c ! 1 = split_from [] xs c ! 0"
      using True by simp
    then show ?thesis
      using True by (simp add: split_from_first after_first_def)
  next
    case False
    then have "c \<in> set xs" using Cons.prems by auto
    then show ?thesis
      using False Cons.IH [of "cur @ [x]"] by (simp add: after_first_def)
  qed
qed

lemma query_length_between:
  assumes "extract_features_from_url url = Inr v" and "CHR ''?'' \<in> set url"
  shows "v ! 12 = int (length (takeWhile (\<lambda>x. x \<noteq> CHR ''?'') (after_first CHR ''?'' url)))"
proof -
  have "split url CHR ''?'' ! 1 = takeWhile (\<lambda>x. x \<noteq> CHR ''?'') (after_first CHR ''?'' url)"
    unfolding split_def using assms(2) by (rule split_from_piece1)
  then show ?thesis
    using assms by (simp add: extract_nth12)
qed

section \<open>What the address pattern matches\<close>

lemma rests_Lit: "t \<in> set (rests (Lit a) s) \<longleftrightarrow> s = a # t"
  by (cases s) auto

lemma rests_Seq:
  "t \<in> set (rests (Seq r1 r2) s) \<longleftrightarrow> (\<exists>m. m \<in> set (rests r1 s) \<and> t \<in> set (rests r2 m))"
  by auto

lemma repeat_Digit:
  "t \<in> set (repeat (rests Digit) n s) \<longleftrightarrow>
     (\<exists>d. d \<noteq> [] \<and> length d \<le> n \<and> list_all re_digit d \<and> s = d @ t)"
proof (induction n arbitrary: s)
  case 0
  then show ?case by simp
next
  case (Suc n)
  show ?case
  proof (cases s)
    case Nil
    then show ?thesis by simp
  next
    case (Cons c cs)
    show ?thesis
    proof (cases "re_digit c")
      case False
      then show ?thesis
        using Cons by (auto simp add: Cons_eq_append_conv)
    next
      case True
      have "t \<in> set (repeat (rests Digit) (Suc n) s) \<longleftrightarrow>
            t \<in> set (repeat (rests Digit) n cs) \<or> t = cs"
        using Cons True by auto
      also have "\<dots> \<longleftrightarrow>
            (\<exists>d. d \<noteq> [] \<and> length d \<le> n \<and> list_all re_digit d \<and> cs = d @ t) \<or> t = cs"
        by (simp only: Suc.IH)
      also have "\<dots> \<longleftrightarrow>
            (\<exists>d. d \<noteq> [] \<and> length d \<le> Suc n \<and> list_all re_digit d \<and> c # cs = d @ t)"
      proof
        assume "(\<exists>d. d \<noteq> [] \<and> length d \<le> n \<and> list_all re_digit d \<and> cs = d @ t) \<or> t = cs"
        then show "\<exists>d. d \<noteq> [] \<and> length d \<le> Suc n \<and> list_all re_digit d \<and> c # cs = d @ t"
        proof
          assume "\<exists>d. d \<noteq> [] \<and> length d \<le> n \<and> list_all re_digit d \<and> cs = d @ t"
          then obtain d where "d \<noteq> []" "length d \<le> n" "list_all re_digit d" "cs = d @ t"
            by blast
          then have "c # d \<noteq> [] \<and> length (c # d) \<le> Suc n \<and> list_all re_digit (c # d) \<and>
                     c # cs = (c # d) @ t"
            using True by simp
          then show ?thesis by blast
        next
          assume "t = cs"
          then have "[c] \<noteq> [] \<and> length [c] \<le> Suc n \<and> list_all re_digit [c] \<and> c # cs = [c] @ t"
            using True by simp
          then show ?thesis by blast
        qed
      next
        assume "\<exists>d. d \<noteq> [] \<and> length d \<le> Suc n \<and> list_all re_digit d \<and> c # cs = d @ t"
        then obtain d where d: "d \<noteq> []" "length d \<le> Suc n" "list_all re_digit d" "c # cs = d @ t"
          by blast
        then obtain d' where d': "d = c # d'" "cs = d' @ t"
          by (cases d) auto
        show "(\<exists>d. d \<noteq> [] \<and> length d \<le> n \<and> list_all re_digit d \<and> cs = d @ t) \<or> t = cs"
        proof (cases "d' = []")
          case True
          then show ?thesis using d' by simp
        next
          case False
          then have "d' \<noteq> [] \<and> length d' \<le> n \<and> list_all re_digit d' \<and> cs = d' @ t"
            using d d' by simp
          then show ?thesis by blast
        qed
      qed
      finally show ?thesis by (simp only: Cons)
    qed
  qed
qed

lemma rests_Plus_Digit: "t \<in> set (rests (Plus Digit) s) \<longleftrightarrow> (\<exists>d. digits d \<and> s = d @ t)"
proof -
  have "t \<in> set (rests (Plus Digit) s) \<longleftrightarrow>
        (\<exists>d. d \<noteq> [] \<and> length d \<le> length s \<and> list_all re_digit d \<and> s = d @ t)"
    by (simp only: rests.simps repeat_Digit)
  also have "\<dots> \<longleftrightarrow> (\<exists>d. digits d \<and> s = d @ t)"
    by (auto simp add: digits_def)
  finally show ?thesis .
qed

lemma re_match_iff: "re_match r s \<longleftrightarrow> (\<exists>t. t \<in> set (rests r s))"
  by (cases "rests r s") (auto simp add: re_match_def)

lemma rests_digits_then:
  "t \<in> set (rests (Seq (Plus Digit) (Seq (Lit x) r)) s) \<longleftrightarrow>
     (\<exists>d m. digits d \<and> s = d @ x # m \<and> t \<in> set (rests r m))"
  by (simp only: rests_Seq rests_Plus_Digit rests_Lit) blast

lemma re_match_ip_pattern: "re_match ip_pattern s \<longleftrightarrow> begins_with_dotted_quad s"
proof
  assume "re_match ip_pattern s"
  then obtain t where "t \<in> set (rests ip_pattern s)"
    unfolding re_match_iff by blast
  then obtain a m1 b m2 c m3 d where
    "digits a" "s = a @ CHR ''.'' # m1" "digits b" "m1 = b @ CHR ''.'' # m2"
    "digits c" "m2 = c @ CHR ''.'' # m3" "digits d" "m3 = d @ t"
    unfolding ip_pattern_def rests_digits_then rests_Plus_Digit by blast
  then have "digits a \<and> digits b \<and> digits c \<and> digits d \<and>
             s = a @ ''.'' @ b @ ''.'' @ c @ ''.'' @ d @ t"
    by simp
  then show "begins_with_dotted_quad s"
    unfolding begins_with_dotted_quad_def by blast
next
  assume "begins_with_dotted_quad s"
  then obtain a b c d rest where q: "digits a" "digits b" "digits c" "digits d"
    and s: "s = a @ ''.'' @ b @ ''.'' @ c @ ''.'' @ d @ rest"
    unfolding begins_with_dotted_quad_def by blast
  have "rest \<in> set (rests (Plus Digit) (d @ rest))"
    unfolding rests_Plus_Digit using q(4) by blast
  then have "rest \<in> set (rests (Seq (Plus Digit) (Seq (Lit CHR ''.'') (Plus Digit)))
                 (c @ CHR ''.'' # d @ rest))"
    unfolding rests_digits_then using q(3) by blast
  then have "rest \<in> set (rests (Seq (Plus Digit) (Seq (Lit CHR ''.'')
                 (Seq (Plus Digit) (Seq (Lit CHR ''.'') (Plus Digit)))))
                 (b @ CHR ''.'' # c @ CHR ''.'' # d @ rest))"
    unfolding rests_digits_then [of _ _ "Seq (Plus Digit) (Seq (Lit CHR ''.'') (Plus Digit))"]
    using q(2) by blast
  then have "rest \<in> set (rests ip_pattern (a @ CHR ''.'' # b @ CHR ''.'' # c @ CHR ''.'' # d @ rest))"
    unfolding ip_pattern_def
      rests_digits_then [of _ _ "Seq (Plus Digit) (Seq (Lit CHR ''.'')
                 (Seq (Plus Digit) (Seq (Lit CHR ''.'') (Plus Digit))))"]
    using q(1) by blast
  then show "re_match ip_pattern s"
    unfolding re_match_iff s by auto
qed

section \<open>Claims about the feature extractor\<close>

text \<open>
  C2. For every input string, the empty one and malformed URLs included,
  \<^verbatim>\<open>extract_features_from_url\<close> raises nothing and returns a vector of exactly fourteen
  integers: the call ends in \<open>Inr v\<close> with \<open>length v = 14\<close>. Every function of the model is
  defined by structural recursion, so the call terminates.
\<close>

theorem extract_returns_14: "\<exists>v. extract_features_from_url u = Inr v \<and> length v = 14"
  by (rule extract_ok)

text \<open>
  C10. For every input string the segment count at index 5 is at least 1, and it is
  exactly 1 for the empty string.
\<close>

theorem segment_count_positive:
  "(\<exists>v. extract_features_from_url u = Inr v \<and> 1 \<le> v ! 5) \<and>
   (\<exists>v. extract_features_from_url [] = Inr v \<and> v ! 5 = 1)"
proof -
  obtain v where v: "extract_features_from_url u = Inr v"
    using extract_ok by blast
  obtain v0 where v0: "extract_features_from_url [] = Inr v0"
    using extract_ok by blast
  from v have "1 \<le> v ! 5"
    by (simp add: extract_nth5 split_length)
  moreover from v0 have "v0 ! 5 = 1"
    by (simp add: extract_nth5 split_length)
  ultimately show ?thesis
    using v v0 by blast
qed

text \<open>
  C3. Index 12 on a URL with two question marks. The source comments the feature as the
  length of the query, and the claim takes the whole substring after the first \<^verbatim>\<open>?\<close>
  (\<^verbatim>\<open>a=1?b=2\<close>, 7 characters); \<^verbatim>\<open>url.split('?')[1]\<close> stops at the second \<^verbatim>\<open>?\<close> and the
  feature is 3.
\<close>

theorem query_length_two_marks:
  "(\<exists>v. extract_features_from_url ''http://h/p?a=1?b=2'' = Inr v \<and> v ! 12 = 3) \<and>
   after_first CHR ''?'' ''http://h/p?a=1?b=2'' = ''a=1?b=2'' \<and>
   int (length (after_first CHR ''?'' ''http://h/p?a=1?b=2'')) = 7"
proof -
  have "extract_features_from_url ''http://h/p?a=1?b=2'' =
        Inr [18, 0, 4, 0, 0, 4, 0, 2, 0, 1, 0, 0, 3, 0]"
    by code_simp
  then show ?thesis
    by (simp add: after_first_def)
qed

text \<open>
  C4. \<^verbatim>\<open>extract_features_from_url("http://192.168.1.1/login")\<close>: the suspicious-word flag
  at index 13 is 1, but the IP flag at index 3 is 0. The source comments the flag as
  "contains an IP" and the URL does contain one (a search for the pattern finds it, as
  the port flag's \<^verbatim>\<open>re.search\<close> would); \<^verbatim>\<open>re.match\<close> only looks at position 0, where the
  URL has its scheme.
\<close>

theorem ip_flag_after_scheme:
  "(\<exists>v. extract_features_from_url ''http://192.168.1.1/login'' = Inr v \<and>
        v ! 3 = 0 \<and> v ! 13 = 1) \<and>
   re_search ip_pattern ''http://192.168.1.1/login'' \<and>
   \<not> re_match ip_pattern ''http://192.168.1.1/login''"
proof -
  have "extract_features_from_url ''http://192.168.1.1/login'' =
        Inr [24, 3, 0, 0, 0, 4, 0, 8, 0, 11, 2, 0, 0, 1]"
    by code_simp
  moreover have "re_search ip_pattern ''http://192.168.1.1/login''"
    by code_simp
  moreover have "\<not> re_match ip_pattern ''http://192.168.1.1/login''"
    by code_simp
  ultimately show ?thesis
    by simp
qed

text \<open>
  C8. For every URL string, the value at index 3 is 1 exactly when the string begins, at
  position 0, with one or more digits, a dot, one or more digits, a dot, one or more
  digits, a dot and one or more digits; otherwise it is 0.
\<close>

theorem ip_flag_iff_prefix:
  "\<exists>v. extract_features_from_url u = Inr v \<and>
       v ! 3 = (if begins_with_dotted_quad u then 1 else 0)"
proof -
  obtain v where v: "extract_features_from_url u = Inr v"
    using extract_ok by blast
  then have "v ! 3 = (if begins_with_dotted_quad u then 1 else 0)"
    by (simp add: extract_nth3 re_match_ip_pattern)
  with v show ?thesis by blast
qed

theorem ip_flag_iff_prefix_witness:
  "begins_with_dotted_quad ''192.168.1.1/login'' \<and>
   (\<exists>v. extract_features_from_url ''192.168.1.1/login'' = Inr v \<and> v ! 3 = 1)"
proof -
  have "re_match ip_pattern ''192.168.1.1/login''"
    by code_simp
  then have "begins_with_dotted_quad ''192.168.1.1/login''"
    by (simp only: re_match_ip_pattern)
  with ip_flag_iff_prefix [of "''192.168.1.1/login''"] show ?thesis
    by auto
qed

section \<open>Runs of the pipeline\<close>

lemma lower_phishing: "lower ''phishing'' = ''phishing''"
  by code_simp

lemma phishing_dangerous: "lower ''phishing'' \<in> set dangerous_labels"
  by (simp add: lower_phishing dangerous_labels_def)

lemma override_nonempty:
  "list_ex (\<lambda>tag. str_in tag (lower url)) override_tags \<Longrightarrow> url \<noteq> []"
  by (auto simp add: override_tags_def lower_def)

lemma predict_try_run:
  assumes "extract_features_from_url url = Inr features"
    and "scaler_transform env [features] = Inr scaled"
    and "model_predict env scaled = Inr (k # ks)"
    and "label_inverse_transform env [k] = Inr (decoded # ds)"
  shows "predict_try env url w =
     (let w4 = called InverseTransform (called Predict (called Transform (called Extract w)));
          prediction_label =
            (if list_ex (\<lambda>tag. str_in tag (lower url)) override_tags
             then ''phishing'' else decoded)
      in if lower prediction_label \<in> set dangerous_labels
         then (case open_history env of
                 Some e \<Rightarrow> (Inl e, w4)
               | None \<Rightarrow>
                  (case write_row env (now_isoformat env, url, prediction_label) of
                     Some e \<Rightarrow> (Inl e, w4)
                   | None \<Rightarrow>
                       (Inr prediction_label,
                        w4\<lparr>history :=
                             history w4 @ [(now_isoformat env, url, prediction_label)]\<rparr>)))
         else (Inr prediction_label, w4))"
  using assms by (simp add: predict_try_def array_first_def Let_def)

lemma history_called: "history (called c w) = history w"
  by (simp add: called_def)

lemma predict_try_history:
  "predict_try env url w = (r, w') \<Longrightarrow>
   history w' = history w \<or>
   (\<exists>label. r = Inr label \<and> lower label \<in> set dangerous_labels \<and>
      history w' = history w @ [(now_isoformat env, url, label)])"
  unfolding predict_try_def Let_def
  by (auto simp add: history_called split: sum.splits option.splits if_splits)

lemma predict_try_safe_label:
  "predict_try env url w = (Inr label, w') \<Longrightarrow> lower label \<notin> set dangerous_labels \<Longrightarrow>
   history w' = history w"
  using predict_try_history [of env url w "Inr label" w'] by auto

text \<open>
  A write that raises after the file has been opened ends the request like a failed
  open: the exception leaves the \<^verbatim>\<open>try\<close> block and no row is recorded.
\<close>

lemma write_failure_is_error:
  assumes "url \<noteq> []"
    and "extract_features_from_url url = Inr features"
    and "scaler_transform env [features] = Inr scaled"
    and "model_predict env scaled = Inr (k # ks)"
    and "label_inverse_transform env [k] = Inr (decoded # ds)"
    and "label = (if list_ex (\<lambda>tag. str_in tag (lower url)) override_tags
                  then ''phishing'' else decoded)"
    and "lower label \<in> set dangerous_labels"
    and "open_history env = None"
    and "write_row env (now_isoformat env, url, label) = Some e"
  shows "fst (predict env (Some url) w) = Error (str_of_exn e) 500 \<and>
         history (snd (predict env (Some url) w)) = history w"
  using assms(1,6-9)
  by (simp add: predict_def predict_try_run [OF assms(2-5)] history_called Let_def)

section \<open>Claims about the classification pipeline\<close>

text \<open>
  C1. The claim is that every URL whose lower-cased text contains one of \<^verbatim>\<open>vulnweb\<close>,
  \<^verbatim>\<open>acunetix\<close>, \<^verbatim>\<open>testphp\<close>, \<^verbatim>\<open>demo\<close> is answered with the label \<^verbatim>\<open>phishing\<close> and gets a
  row in the history, whatever the classifier says. The override makes the label a
  dangerous one, so the append is attempted, and the append stands inside the \<^verbatim>\<open>try\<close>
  block: with collaborators that return (the decoder says \<^verbatim>\<open>benign\<close>) and a history
  file that cannot be opened, the answer for \<^verbatim>\<open>http://vulnweb.com/testphp/x\<close> is the error
  with status 500, and no row is written.
\<close>

theorem override_unwritable_counterexample:
  "list_ex (\<lambda>tag. str_in tag (lower ''http://vulnweb.com/testphp/x'')) override_tags \<and>
   fst (predict (benign_env\<lparr>open_history := Some (Raised ''Permission denied'')\<rparr>)
          (Some ''http://vulnweb.com/testphp/x'') empty_world) =
     Error ''Permission denied'' 500 \<and>
   history (snd (predict (benign_env\<lparr>open_history := Some (Raised ''Permission denied'')\<rparr>)
          (Some ''http://vulnweb.com/testphp/x'') empty_world)) = []"
  by code_simp

text \<open>
  C1, as the code has it: for every URL whose lower-cased text contains one of the four
  override substrings, and for every output of the collaborators (any scaled row, any
  encoded class \<open>k\<close>, any decoded label), if the history file opens and the row is
  written without an exception, then \<^verbatim>\<open>predict\<close> answers with the label \<^verbatim>\<open>phishing\<close>, which
  replaces the decoded one, and appends the row (timestamp, URL, \<^verbatim>\<open>phishing\<close>) to the
  history. That the URL is not empty follows from the override condition.
\<close>

theorem override_forces_phishing:
  assumes "list_ex (\<lambda>tag. str_in tag (lower url)) override_tags"
    and "extract_features_from_url url = Inr features"
    and "scaler_transform env [features] = Inr scaled"
    and "model_predict env scaled = Inr (k # ks)"
    and "label_inverse_transform env [k] = Inr (decoded # ds)"
    and "open_history env = None"
    and "write_row env (now_isoformat env, url, ''phishing'') = None"
  shows "fst (predict env (Some url) w) = Prediction ''phishing'' \<and>
         history (snd (predict env (Some url) w)) =
           history w @ [(now_isoformat env, url, ''phishing'')]"
proof -
  have "url \<noteq> []"
    using assms(1) by (rule override_nonempty)
  moreover have "predict_try env url w =
      (Inr ''phishing'',
       (called InverseTransform (called Predict (called Transform (called Extract w))))
         \<lparr>history := history w @ [(now_isoformat env, url, ''phishing'')]\<rparr>)"
    using assms(1,6,7) phishing_dangerous
    by (simp add: predict_try_run [OF assms(2-5)] history_called Let_def)
  ultimately show ?thesis
    by (simp add: predict_def)
qed

theorem override_forces_phishing_witness:
  "fst (predict benign_env (Some ''http://vulnweb.com/testphp/x'') empty_world) =
     Prediction ''phishing'' \<and>
   history (snd (predict benign_env (Some ''http://vulnweb.com/testphp/x'') empty_world)) =
     [(''2024-05-01T12:00:00.000000'', ''http://vulnweb.com/testphp/x'', ''phishing'')]"
proof -
  obtain f where f: "extract_features_from_url ''http://vulnweb.com/testphp/x'' = Inr f"
    using extract_ok by blast
  have ov: "list_ex (\<lambda>tag. str_in tag (lower ''http://vulnweb.com/testphp/x'')) override_tags"
    by code_simp
  have "scaler_transform benign_env [f] = Inr [f]"
    and "model_predict benign_env [f] = Inr (0 # [])"
    and "label_inverse_transform benign_env [0] = Inr (''benign'' # [])"
    and "open_history benign_env = None"
    and "write_row benign_env
           (now_isoformat benign_env, ''http://vulnweb.com/testphp/x'', ''phishing'') = None"
    by (simp_all add: benign_env_def)
  from override_forces_phishing [OF ov f this, of empty_world] show ?thesis
    by (simp add: benign_env_def empty_world_def)
qed

text \<open>
  C5. The claim is that a failure to append to the history leaves the answer a
  successful label. In the source the append stands inside the \<^verbatim>\<open>try\<close> block, so its
  exception reaches the \<^verbatim>\<open>except\<close> clause: with a decoder that says \<^verbatim>\<open>phishing\<close> and a
  history file that cannot be opened, the answer is the error with status 500.
\<close>

theorem sink_failure_counterexample:
  "label_inverse_transform readonly_env [0] = Inr [''phishing''] \<and>
   open_history readonly_env = Some (Raised ''Permission denied'') \<and>
   fst (predict readonly_env (Some ''http://paypal.example/login'') empty_world) =
     Error ''Permission denied'' 500 \<and>
   fst (predict readonly_env (Some ''http://paypal.example/login'') empty_world) \<noteq>
     Prediction ''phishing''"
  by code_simp

text \<open>
  C5, as the code has it: when extraction, scaling, prediction and decoding succeed,
  the final label is one of the dangerous ones and opening the history file raises
  \<open>e\<close>, \<^verbatim>\<open>predict\<close> answers with the error \<^verbatim>\<open>str(e)\<close> and status 500, returns no label, and
  the history is unchanged.
\<close>

theorem sink_failure_is_error:
  assumes "url \<noteq> []"
    and "extract_features_from_url url = Inr features"
    and "scaler_transform env [features] = Inr scaled"
    and "model_predict env scaled = Inr (k # ks)"
    and "label_inverse_transform env [k] = Inr (decoded # ds)"
    and "lower (if list_ex (\<lambda>tag. str_in tag (lower url)) override_tags
                then ''phishing'' else decoded) \<in> set dangerous_labels"
    and "open_history env = Some e"
  shows "fst (predict env (Some url) w) = Error (str_of_exn e) 500 \<and>
         history (snd (predict env (Some url) w)) = history w"
  using assms(1,6,7)
  by (simp add: predict_def predict_try_run [OF assms(2-5)] history_called Let_def)

theorem sink_failure_is_error_witness:
  "fst (predict readonly_env (Some ''http://example.org/'') empty_world) =
     Error ''Permission denied'' 500 \<and>
   history (snd (predict readonly_env (Some ''http://example.org/'') empty_world)) = []"
proof -
  obtain f where f: "extract_features_from_url ''http://example.org/'' = Inr f"
    using extract_ok by blast
  have d: "lower (if list_ex (\<lambda>tag. str_in tag (lower ''http://example.org/'')) override_tags
                then ''phishing'' else ''phishing'') \<in> set dangerous_labels"
    by (simp add: phishing_dangerous)
  have "scaler_transform readonly_env [f] = Inr [f]"
    and "model_predict readonly_env [f] = Inr (0 # [])"
    and "label_inverse_transform readonly_env [0] = Inr (''phishing'' # [])"
    by (simp_all add: readonly_env_def)
  moreover have "open_history readonly_env = Some (Raised ''Permission denied'')"
    by (simp add: readonly_env_def)
  ultimately show ?thesis
    using sink_failure_is_error [of "''http://example.org/''" f readonly_env "[f]" 0 "[]"
        "''phishing''" "[]" "Raised ''Permission denied''" empty_world] f d
    by (simp add: empty_world_def)
qed

text \<open>
  C6. When the URL is absent or the empty string, \<^verbatim>\<open>predict\<close> answers with the error
  \<^verbatim>\<open>No URL provided\<close> and status 400, whatever the collaborators are, and the world is
  the one it started from: no call to the extractor, the scaler, the model or the
  decoder is recorded, and the history has no new row.
\<close>

theorem missing_url_rejected:
  "url_field = None \<or> url_field = Some [] \<Longrightarrow>
   predict env url_field w = (Error ''No URL provided'' 400, w)"
  by (auto simp add: predict_def)

theorem missing_url_rejected_witness:
  "predict benign_env None empty_world = (Error ''No URL provided'' 400, empty_world) \<and>
   predict benign_env (Some []) empty_world = (Error ''No URL provided'' 400, empty_world)"
  using missing_url_rejected [of None benign_env empty_world]
    missing_url_rejected [of "Some []" benign_env empty_world]
  by simp

text \<open>
  C7. Whenever \<^verbatim>\<open>predict\<close> answers with a label whose lower-cased text is none of
  \<^verbatim>\<open>phishing\<close>, \<^verbatim>\<open>malicious\<close>, \<^verbatim>\<open>unsafe\<close>, the history is unchanged; and whenever the
  history changes, the answer is a label of that set and the change is the one row
  (timestamp, URL, label) appended at the end.
\<close>

theorem history_changes_only_for_dangerous:
  "(\<forall>label. fst (predict env url_field w) = Prediction label \<and>
            lower label \<notin> set dangerous_labels \<longrightarrow>
            history (snd (predict env url_field w)) = history w) \<and>
   (history (snd (predict env url_field w)) \<noteq> history w \<longrightarrow>
      (\<exists>url label. url_field = Some url \<and>
         fst (predict env url_field w) = Prediction label \<and>
         lower label \<in> set dangerous_labels \<and>
         history (snd (predict env url_field w)) =
           history w @ [(now_isoformat env, url, label)]))"
proof (cases "\<exists>url. url_field = Some url \<and> url \<noteq> []")
  case False
  then have "predict env url_field w = (Error ''No URL provided'' 400, w)"
    by (cases url_field) (auto simp add: predict_def)
  then show ?thesis by simp
next
  case True
  then obtain url where url: "url_field = Some url" "url \<noteq> []"
    by blast
  obtain r w' where t: "predict_try env url w = (r, w')"
    by (cases "predict_try env url w") blast
  have p: "predict env (Some url) w =
        (case r of Inl e \<Rightarrow> Error (str_of_exn e) 500 | Inr label \<Rightarrow> Prediction label, w')"
    using url t by (simp add: predict_def split: sum.splits)
  show ?thesis
    unfolding url(1) using predict_try_history [OF t]
    by (cases r) (auto simp add: p)
qed

theorem history_changes_only_for_dangerous_witness:
  "fst (predict benign_env (Some ''http://example.org/'') empty_world) = Prediction ''benign'' \<and>
   lower ''benign'' \<notin> set dangerous_labels \<and>
   history (snd (predict benign_env (Some ''http://example.org/'') empty_world)) = []"
proof -
  have a: "fst (predict benign_env (Some ''http://example.org/'') empty_world) =
             Prediction ''benign''"
    by code_simp
  have b: "lower ''benign'' \<notin> set dangerous_labels"
    by code_simp
  from history_changes_only_for_dangerous
         [of benign_env "Some ''http://example.org/''" empty_world] a b
  show ?thesis
    by (simp add: empty_world_def)
qed

end
